theory Spec2Isabelle
  imports Main "HOL-Library.Word"
begin

section \<open>The accelerator driver of overlay\_integration.ipynb\<close>

text \<open>
  The notebook defines the class \<open>my_new_accelerator\<close>, which drives a memory-mapped
  accelerator through an \<open>MMIO\<close> object: \<open>__init__\<close> writes IDLE to the command
  register, \<open>load_data\<close> copies a list into the input area, \<open>process\<close> writes the
  PROCESS command, polls the acknowledge register, reads the output area back and resets
  the acknowledge register.
\<close>

subsection \<open>Constants of the notebook\<close>

type_synonym u32 = "32 word"

definition BASE_ADDRESS :: nat where "BASE_ADDRESS = 0x40000000"
definition ADDRESS_LENGTH :: nat where "ADDRESS_LENGTH = 0x1000"
definition CMD_OFFSET :: nat where "CMD_OFFSET = 0x800"
definition ACK_OFFSET :: nat where "ACK_OFFSET = 0x804"
definition INPUT_DATA_OFFSET :: nat where "INPUT_DATA_OFFSET = 0x0"
definition OUTPUT_DATA_OFFSET :: nat where "OUTPUT_DATA_OFFSET = 0x400"

subsection \<open>The register space\<close>

text \<open>
  Modelled from the spec: the class \<open>MMIO\<close> of the \<open>pynq\<close> package, which the notebook
  imports and whose code is not part of the notebook. The spec describes it as a view
  that owns no data, over a memory window given by a base address and a length, with
  \<open>read(offset) -> u32\<close> and \<open>write(offset, value: u32)\<close> on byte offsets, and says
  that the interface itself does not validate the offset. Two \<open>MMIO\<close> objects with the
  same base address are views of the same memory, so the memory is kept outside the
  objects, in the machine state, addressed by \<open>base + offset\<close>. The machine state also
  records every access made through an \<open>MMIO\<close> object, in the order it was issued.
\<close>

datatype access = Read nat u32 | Write nat u32

record MMIO =
  base_addr :: nat
  addr_length :: nat

record machine =
  memory :: "nat \<Rightarrow> u32"
  accesses :: "access list"

text \<open>Modelled from the spec: \<open>MMIO.read(offset)\<close>, the word at \<open>base + offset\<close>; no
  check of the offset.\<close>

definition mmio_read :: "MMIO \<Rightarrow> nat \<Rightarrow> machine \<Rightarrow> u32 \<times> machine" where
  "mmio_read h offset s =
     (let v = memory s (base_addr h + offset)
      in (v, s\<lparr>accesses := accesses s @ [Read (base_addr h + offset) v]\<rparr>))"

text \<open>Modelled from the spec: \<open>MMIO.write(offset, value)\<close>, which stores the word at
  \<open>base + offset\<close>; no check of the offset.\<close>

definition mmio_write :: "MMIO \<Rightarrow> nat \<Rightarrow> u32 \<Rightarrow> machine \<Rightarrow> machine" where
  "mmio_write h offset v s =
     s\<lparr>memory := (memory s)(base_addr h + offset := v),
       accesses := accesses s @ [Write (base_addr h + offset) v]\<rparr>"

subsection \<open>The class \<open>my_new_accelerator\<close>\<close>

record my_new_accelerator =
  mmio :: MMIO
  array_length :: nat

text \<open>\<open>__init__\<close>: map the window, set \<open>array_length\<close> to 0, write 0x0 to the command
  register.\<close>

definition init :: "machine \<Rightarrow> my_new_accelerator \<times> machine" where
  "init s =
     (let h = \<lparr>base_addr = BASE_ADDRESS, addr_length = ADDRESS_LENGTH\<rparr>
      in (\<lparr>mmio = h, array_length = 0\<rparr>, mmio_write h CMD_OFFSET 0x0 s))"

text \<open>\<open>load_data\<close>: \<open>for i in range(self.array_length)\<close> is a fold over \<open>[0..<n]\<close>;
  \<open>input_data[i]\<close> is always in range there.\<close>

definition load_data ::
  "u32 list \<Rightarrow> my_new_accelerator \<Rightarrow> machine \<Rightarrow> my_new_accelerator \<times> machine" where
  "load_data input_data self s =
     (let self' = self\<lparr>array_length := length input_data\<rparr>
      in (self',
          fold (\<lambda>i. mmio_write (mmio self') (INPUT_DATA_OFFSET + i * 4) (input_data ! i))
               [0..<array_length self'] s))"

text \<open>
  The poll loop of \<open>process\<close>: \<open>while (self.mmio.read(ACK_OFFSET)) != 0x1: pass\<close>.
  The acknowledge register is written by the device, not by the driver, so the loop reads
  memory that changes under it. The device is a parameter: \<open>dev k\<close> is what the device
  does to the memory between poll \<open>k\<close> and poll \<open>k + 1\<close>, the only moment where the
  driver waits for it; everywhere else the memory changes by the driver's own writes
  only. A device that does nothing is \<open>\<lambda>k m. m\<close>. The loop has no bound, so it is a
  partial function: \<open>None\<close> is the loop that never ends.
\<close>

type_synonym device = "nat \<Rightarrow> (nat \<Rightarrow> u32) \<Rightarrow> (nat \<Rightarrow> u32)"

partial_function (option) poll_ack :: "device \<Rightarrow> MMIO \<Rightarrow> nat \<Rightarrow> machine \<Rightarrow> machine option" where
  "poll_ack dev h k s =
     (case mmio_read h ACK_OFFSET s of
        (v, s') \<Rightarrow>
          if v \<noteq> 0x1 then poll_ack dev h (Suc k) (s'\<lparr>memory := dev k (memory s')\<rparr>)
          else Some s')"

text \<open>The read-back loop: \<open>output_data[i] = self.mmio.read(OUTPUT_DATA_OFFSET + i * 4)\<close>
  for \<open>i\<close> in \<open>range(self.array_length)\<close>, on a list of that length.\<close>

definition read_back :: "MMIO \<Rightarrow> nat \<Rightarrow> u32 list \<Rightarrow> machine \<Rightarrow> u32 list \<times> machine" where
  "read_back h n output_data s =
     fold (\<lambda>i (out, s1).
             case mmio_read h (OUTPUT_DATA_OFFSET + i * 4) s1 of
               (v, s2) \<Rightarrow> (out[i := v], s2))
          [0..<n] (output_data, s)"

text \<open>\<open>process\<close>: write 0x1 to the command register, allocate the result list, poll,
  read back, write 0x0 to the acknowledge register, return the list. The object itself
  is not changed, so the result is the list and the new machine state.\<close>

definition process :: "device \<Rightarrow> my_new_accelerator \<Rightarrow> machine \<Rightarrow> (u32 list \<times> machine) option" where
  "process dev self s =
     (let s1 = mmio_write (mmio self) CMD_OFFSET 0x1 s;
          output_data = replicate (array_length self) 0
      in case poll_ack dev (mmio self) 0 s1 of
           None \<Rightarrow> None
         | Some s2 \<Rightarrow>
             (case read_back (mmio self) (array_length self) output_data s2 of
                (output_data', s3) \<Rightarrow>
                  Some (output_data', mmio_write (mmio self) ACK_OFFSET 0x0 s3)))"

text \<open>The third code cell of the notebook plays the device: through a second \<open>MMIO\<close>
  object on the same window it writes one value per element to the output area and then
  1 to the acknowledge register. The notebook writes \<open>input_data[i] + 1\<close>; here the
  values written are the list \<open>vs\<close>.\<close>

definition simulate_device :: "u32 list \<Rightarrow> machine \<Rightarrow> machine" where
  "simulate_device vs s =
     (let h = \<lparr>base_addr = BASE_ADDRESS, addr_length = ADDRESS_LENGTH\<rparr>;
          s1 = fold (\<lambda>i. mmio_write h (OUTPUT_DATA_OFFSET + i * 4) (vs ! i)) [0..<length vs] s
      in mmio_write h ACK_OFFSET 1 s1)"

subsection \<open>Notions used in the statements\<close>

text \<open>The addresses of the registers and of the data words of an accelerator object.\<close>

definition cmd_addr :: "my_new_accelerator \<Rightarrow> nat" where
  "cmd_addr self = base_addr (mmio self) + CMD_OFFSET"

definition ack_addr :: "my_new_accelerator \<Rightarrow> nat" where
  "ack_addr self = base_addr (mmio self) + ACK_OFFSET"

definition input_addr :: "my_new_accelerator \<Rightarrow> nat \<Rightarrow> nat" where
  "input_addr self i = base_addr (mmio self) + (INPUT_DATA_OFFSET + i * 4)"

definition output_addr :: "my_new_accelerator \<Rightarrow> nat \<Rightarrow> nat" where
  "output_addr self i = base_addr (mmio self) + (OUTPUT_DATA_OFFSET + i * 4)"

text \<open>\<open>device_run dev k n m\<close> is the memory after the device steps \<open>k\<close>, ...,
  \<open>k + n - 1\<close>, starting from \<open>m\<close>.\<close>

primrec device_run :: "device \<Rightarrow> nat \<Rightarrow> nat \<Rightarrow> (nat \<Rightarrow> u32) \<Rightarrow> (nat \<Rightarrow> u32)" where
  "device_run dev k 0 m = m"
| "device_run dev k (Suc n) m = device_run dev (Suc k) n (dev k m)"

text \<open>\<open>polled dev self s n\<close> is the memory that poll number \<open>n\<close> of \<open>process\<close> reads,
  when \<open>process\<close> starts in the machine state \<open>s\<close> and the loop gets that far: the
  command register has been written, and the device has made \<open>n\<close> steps.\<close>

definition polled :: "device \<Rightarrow> my_new_accelerator \<Rightarrow> machine \<Rightarrow> nat \<Rightarrow> (nat \<Rightarrow> u32)" where
  "polled dev self s n = device_run dev 0 n ((memory s)(cmd_addr self := 1))"

text \<open>The loop of \<open>load_data\<close> and the loop of the device simulation have the same shape:
  word \<open>i\<close> of a list goes to the offset \<open>off + i * 4\<close>.\<close>

definition write_all :: "MMIO \<Rightarrow> nat \<Rightarrow> u32 list \<Rightarrow> nat \<Rightarrow> machine \<Rightarrow> machine" where
  "write_all h off xs n s = fold (\<lambda>i. mmio_write h (off + i * 4) (xs ! i)) [0..<n] s"

text \<open>The writes among a list of accesses, in order.\<close>

fun writes :: "access list \<Rightarrow> (nat \<times> u32) list" where
  "writes [] = []"
| "writes (Read a v # evs) = writes evs"
| "writes (Write a v # evs) = (a, v) # writes evs"

text \<open>\<open>acc.load_data(a); acc.load_data(b)\<close>.\<close>

definition load_twice ::
  "u32 list \<Rightarrow> u32 list \<Rightarrow> my_new_accelerator \<Rightarrow> machine \<Rightarrow> my_new_accelerator \<times> machine" where
  "load_twice a b self s = (case load_data a self s of (self1, s1) \<Rightarrow> load_data b self1 s1)"

text \<open>The code cells 2 to 4 of the notebook in sequence: construct the object, load the
  input, let the simulated device write \<open>vs\<close> and the acknowledge, call \<open>process\<close>; the
  value is the list that \<open>process\<close> returns.\<close>

definition notebook_run :: "device \<Rightarrow> u32 list \<Rightarrow> u32 list \<Rightarrow> machine \<Rightarrow> u32 list option" where
  "notebook_run dev input_data vs s =
     (case init s of
        (acc, s1) \<Rightarrow>
          (case load_data input_data acc s1 of
             (acc', s2) \<Rightarrow> map_option fst (process dev acc' (simulate_device vs s2))))"

text \<open>Concrete inputs: a zeroed memory on which nothing has been accessed yet, a device
  that never does anything, and a device that sets the acknowledge register of the
  notebook's window in its step \<open>d\<close>.\<close>

definition power_on :: machine where
  "power_on = \<lparr>memory = (\<lambda>a. 0), accesses = []\<rparr>"

definition idle_device :: device where
  "idle_device = (\<lambda>k m. m)"

definition ack_after :: "nat \<Rightarrow> device" where
  "ack_after d = (\<lambda>k m. if k = d then m(BASE_ADDRESS + ACK_OFFSET := 1) else m)"

section \<open>Properties\<close>

subsection \<open>The loops\<close>

lemma write_all_0: "write_all h off xs 0 s = s"
  by (simp add: write_all_def)

lemma write_all_Suc:
  "write_all h off xs (Suc n) s = mmio_write h (off + n * 4) (xs ! n) (write_all h off xs n s)"
  by (simp add: write_all_def)

lemma write_all_accesses:
  "accesses (write_all h off xs n s) =
     accesses s @ map (\<lambda>i. Write (base_addr h + (off + i * 4)) (xs ! i)) [0..<n]"
  by (induction n) (simp_all add: write_all_0 write_all_Suc mmio_write_def)

lemma write_all_memory:
  "memory (write_all h off xs n s) a =
     (if \<exists>i<n. a = base_addr h + (off + i * 4) then xs ! ((a - base_addr h - off) div 4)
      else memory s a)"
proof (induction n)
  case 0
  show ?case by (simp add: write_all_0)
next
  case (Suc n)
  show ?case
  proof (cases "a = base_addr h + (off + n * 4)")
    case True
    then show ?thesis by (auto simp: write_all_Suc mmio_write_def)
  next
    case False
    then show ?thesis using Suc by (auto simp: write_all_Suc mmio_write_def less_Suc_eq)
  qed
qed

lemma poll_ack_found:
  "device_run dev k n (memory s) (base_addr h + ACK_OFFSET) = 1 \<Longrightarrow>
   \<forall>j<n. device_run dev k j (memory s) (base_addr h + ACK_OFFSET) \<noteq> 1 \<Longrightarrow>
   poll_ack dev h k s =
     Some (s\<lparr>memory := device_run dev k n (memory s),
             accesses := accesses s @
               map (\<lambda>j. Read (base_addr h + ACK_OFFSET)
                          (device_run dev k j (memory s) (base_addr h + ACK_OFFSET))) [0..<Suc n]\<rparr>)"
proof (induction n arbitrary: k s)
  case 0
  then show ?case
    by (subst poll_ack.simps) (simp add: mmio_read_def Let_def)
next
  case (Suc n)
  let ?s' = "s\<lparr>accesses := accesses s @ [Read (base_addr h + ACK_OFFSET) (memory s (base_addr h + ACK_OFFSET))],
               memory := dev k (memory s)\<rparr>"
  from Suc.prems(2) have ne: "memory s (base_addr h + ACK_OFFSET) \<noteq> 1"
    by (metis device_run.simps(1) zero_less_Suc)
  have a: "device_run dev (Suc k) n (memory ?s') (base_addr h + ACK_OFFSET) = 1"
    using Suc.prems(1) by simp
  have b: "\<forall>j<n. device_run dev (Suc k) j (memory ?s') (base_addr h + ACK_OFFSET) \<noteq> 1"
  proof (intro allI impI)
    fix j assume "j < n"
    then have "Suc j < Suc n" by simp
    with Suc.prems(2) have "device_run dev k (Suc j) (memory s) (base_addr h + ACK_OFFSET) \<noteq> 1"
      by blast
    then show "device_run dev (Suc k) j (memory ?s') (base_addr h + ACK_OFFSET) \<noteq> 1" by simp
  qed
  have m: "map (\<lambda>j. Read (base_addr h + ACK_OFFSET) (device_run dev k j (memory s) (base_addr h + ACK_OFFSET))) [0..<Suc (Suc n)]
     = Read (base_addr h + ACK_OFFSET) (memory s (base_addr h + ACK_OFFSET)) #
       map (\<lambda>j. Read (base_addr h + ACK_OFFSET) (device_run dev (Suc k) j (dev k (memory s)) (base_addr h + ACK_OFFSET))) [0..<Suc n]"
    by (simp only: upt_conv_Cons[of 0 "Suc (Suc n)"] map_Suc_upt[symmetric] list.map map_map o_def device_run.simps zero_less_Suc if_True)
  have "poll_ack dev h k s = poll_ack dev h (Suc k) ?s'"
    using ne by (subst poll_ack.simps) (simp add: mmio_read_def Let_def)
  also have "\<dots> = Some (?s'\<lparr>memory := device_run dev (Suc k) n (memory ?s'),
             accesses := accesses ?s' @
               map (\<lambda>j. Read (base_addr h + ACK_OFFSET)
                          (device_run dev (Suc k) j (memory ?s') (base_addr h + ACK_OFFSET))) [0..<Suc n]\<rparr>)"
    by (rule Suc.IH[OF a b])
  finally show ?case by (simp add: m del: upt_Suc)
qed

lemma poll_ack_Some_imp:
  "poll_ack dev h k s = Some s' \<Longrightarrow>
   \<exists>n. device_run dev k n (memory s) (base_addr h + ACK_OFFSET) = 1"
proof (induction arbitrary: s' rule: poll_ack.raw_induct[rotated 1, consumes 1])
  case (1 poll dev h k s s')
  show ?case
  proof (cases "memory s (base_addr h + ACK_OFFSET) = 1")
    case True
    then have "device_run dev k 0 (memory s) (base_addr h + ACK_OFFSET) = 1" by simp
    then show ?thesis by blast
  next
    case False
    with 1(2) have "poll dev h (Suc k)
        ((snd (mmio_read h ACK_OFFSET s))\<lparr>memory := dev k (memory (snd (mmio_read h ACK_OFFSET s)))\<rparr>) = Some s'"
      by (simp add: mmio_read_def Let_def)
    from 1(1)[OF this] obtain n where
      "device_run dev (Suc k) n (dev k (memory s)) (base_addr h + ACK_OFFSET) = 1"
      by (auto simp: mmio_read_def Let_def)
    then have "device_run dev k (Suc n) (memory s) (base_addr h + ACK_OFFSET) = 1" by simp
    then show ?thesis by blast
  qed
qed

lemma read_back_0: "read_back h 0 out s = (out, s)"
  by (simp add: read_back_def)

lemma read_back_Suc:
  "read_back h (Suc n) out s =
     (case read_back h n out s of
        (out1, s1) \<Rightarrow>
          (out1[n := memory s1 (base_addr h + (OUTPUT_DATA_OFFSET + n * 4))],
           s1\<lparr>accesses := accesses s1 @
              [Read (base_addr h + (OUTPUT_DATA_OFFSET + n * 4))
                 (memory s1 (base_addr h + (OUTPUT_DATA_OFFSET + n * 4)))]\<rparr>))"
  by (simp add: read_back_def mmio_read_def Let_def split: prod.splits)

lemma read_back_eq:
  "n \<le> length out \<Longrightarrow>
   read_back h n out s =
     (map (\<lambda>i. memory s (base_addr h + (OUTPUT_DATA_OFFSET + i * 4))) [0..<n] @ drop n out,
      s\<lparr>accesses := accesses s @
         map (\<lambda>i. Read (base_addr h + (OUTPUT_DATA_OFFSET + i * 4))
                    (memory s (base_addr h + (OUTPUT_DATA_OFFSET + i * 4)))) [0..<n]\<rparr>)"
proof (induction n)
  case 0
  show ?case by (simp add: read_back_0)
next
  case (Suc n)
  then have lt: "n < length out" by simp
  have upd: "(xs @ drop n out)[n := v] = xs @ [v] @ drop (Suc n) out" if "length xs = n" for xs v
    using that lt by (simp add: list_update_append Cons_nth_drop_Suc[symmetric])
  from Suc show ?case
    by (simp add: read_back_Suc upd)
qed

lemma process_found:
  assumes "polled dev self s n (ack_addr self) = 1"
    and "\<forall>j<n. polled dev self s j (ack_addr self) \<noteq> 1"
  shows "process dev self s =
     Some (map (\<lambda>i. polled dev self s n (output_addr self i)) [0..<array_length self],
           s\<lparr>memory := (polled dev self s n)(ack_addr self := 0),
             accesses := accesses s @ [Write (cmd_addr self) 1] @
               map (\<lambda>j. Read (ack_addr self) (polled dev self s j (ack_addr self))) [0..<Suc n] @
               map (\<lambda>i. Read (output_addr self i) (polled dev self s n (output_addr self i)))
                 [0..<array_length self] @
               [Write (ack_addr self) 0]\<rparr>)"
proof -
  let ?s1 = "mmio_write (mmio self) CMD_OFFSET 1 s"
  have m1: "memory ?s1 = (memory s)(cmd_addr self := 1)"
    by (simp add: mmio_write_def cmd_addr_def)
  have p: "poll_ack dev (mmio self) 0 ?s1 =
     Some (?s1\<lparr>memory := device_run dev 0 n (memory ?s1),
             accesses := accesses ?s1 @
               map (\<lambda>j. Read (base_addr (mmio self) + ACK_OFFSET)
                          (device_run dev 0 j (memory ?s1) (base_addr (mmio self) + ACK_OFFSET))) [0..<Suc n]\<rparr>)"
    using assms unfolding polled_def ack_addr_def m1[symmetric]
    by (intro poll_ack_found) 
  show ?thesis
    unfolding process_def Let_def p
    by (simp add: read_back_eq m1 polled_def ack_addr_def output_addr_def mmio_write_def cmd_addr_def del: upt_Suc)
qed

lemma process_None:
  assumes "\<forall>n. polled dev self s n (ack_addr self) \<noteq> 1"
  shows "process dev self s = None"
proof -
  let ?s1 = "mmio_write (mmio self) CMD_OFFSET 1 s"
  have m1: "memory ?s1 = (memory s)(cmd_addr self := 1)"
    by (simp add: mmio_write_def cmd_addr_def)
  have "poll_ack dev (mmio self) 0 ?s1 = None"
  proof (cases "poll_ack dev (mmio self) 0 ?s1")
    case (Some s')
    from poll_ack_Some_imp[OF this] assms show ?thesis
      by (simp add: m1 polled_def ack_addr_def)
  qed simp
  then show ?thesis by (simp add: process_def Let_def)
qed

lemma first_poll:
  assumes "\<exists>n. polled dev self s n (ack_addr self) = 1"
  obtains n where "polled dev self s n (ack_addr self) = 1"
    and "\<forall>j<n. polled dev self s j (ack_addr self) \<noteq> 1"
proof -
  let ?P = "\<lambda>n. polled dev self s n (ack_addr self) = 1"
  from assms have "?P (LEAST n. ?P n)" by (rule LeastI_ex)
  moreover have "\<forall>j<(LEAST n. ?P n). \<not> ?P j" using not_less_Least by blast
  ultimately show ?thesis using that by blast
qed

lemma process_Some_iff:
  "(\<exists>r. process dev self s = Some r) \<longleftrightarrow> (\<exists>n. polled dev self s n (ack_addr self) = 1)"
proof
  assume "\<exists>r. process dev self s = Some r"
  then show "\<exists>n. polled dev self s n (ack_addr self) = 1"
    using process_None[of dev self s] by fastforce
next
  assume "\<exists>n. polled dev self s n (ack_addr self) = 1"
  then obtain n where "polled dev self s n (ack_addr self) = 1"
    and "\<forall>j<n. polled dev self s j (ack_addr self) \<noteq> 1" by (rule first_poll)
  from process_found[OF this] show "\<exists>r. process dev self s = Some r" by blast
qed

lemma process_SomeE:
  assumes "process dev self s = Some r"
  obtains n where "polled dev self s n (ack_addr self) = 1"
    and "\<forall>j<n. polled dev self s j (ack_addr self) \<noteq> 1"
    and "r = (map (\<lambda>i. polled dev self s n (output_addr self i)) [0..<array_length self],
           s\<lparr>memory := (polled dev self s n)(ack_addr self := 0),
             accesses := accesses s @ [Write (cmd_addr self) 1] @
               map (\<lambda>j. Read (ack_addr self) (polled dev self s j (ack_addr self))) [0..<Suc n] @
               map (\<lambda>i. Read (output_addr self i) (polled dev self s n (output_addr self i)))
                 [0..<array_length self] @
               [Write (ack_addr self) 0]\<rparr>)"
proof -
  from assms have "\<exists>n. polled dev self s n (ack_addr self) = 1"
    using process_Some_iff by blast
  then obtain n where n: "polled dev self s n (ack_addr self) = 1"
    "\<forall>j<n. polled dev self s j (ack_addr self) \<noteq> 1" by (rule first_poll)
  from process_found[OF n] assms that[OF n] show ?thesis by simp
qed

lemma load_data_eq:
  "load_data xs self s =
     (self\<lparr>array_length := length xs\<rparr>,
      write_all (mmio self) INPUT_DATA_OFFSET xs (length xs) s)"
  by (simp add: load_data_def write_all_def Let_def)

lemma simulate_device_eq:
  "simulate_device vs s =
     mmio_write \<lparr>base_addr = BASE_ADDRESS, addr_length = ADDRESS_LENGTH\<rparr> ACK_OFFSET 1
       (write_all \<lparr>base_addr = BASE_ADDRESS, addr_length = ADDRESS_LENGTH\<rparr>
          OUTPUT_DATA_OFFSET vs (length vs) s)"
  by (simp add: simulate_device_def write_all_def Let_def)

lemma write_all_nth:
  "i < n \<Longrightarrow> memory (write_all h off xs n s) (base_addr h + (off + i * 4)) = xs ! i"
  by (auto simp: write_all_memory)

lemma write_all_other:
  "(\<And>i. i < n \<Longrightarrow> a \<noteq> base_addr h + (off + i * 4)) \<Longrightarrow>
   memory (write_all h off xs n s) a = memory s a"
  by (auto simp: write_all_memory)

lemma device_run_idle: "device_run idle_device k n m = m"
  by (induction n arbitrary: k) (simp_all add: idle_device_def)

lemma simulate_device_memory:
  "memory (simulate_device vs s) a =
     (if a = BASE_ADDRESS + ACK_OFFSET then 1
      else if \<exists>i<length vs. a = BASE_ADDRESS + (OUTPUT_DATA_OFFSET + i * 4)
           then vs ! ((a - BASE_ADDRESS - OUTPUT_DATA_OFFSET) div 4)
      else memory s a)"
  by (auto simp: simulate_device_eq mmio_write_def write_all_memory)

lemma cycle_output:
  assumes "length vs = length input_data" and "base_addr (mmio self) = BASE_ADDRESS"
  shows "map_option fst
           (process dev (fst (load_data input_data self s))
              (simulate_device vs (snd (load_data input_data self s)))) =
         Some (map (\<lambda>i. if i = 256 \<or> i = 257 then 1 else vs ! i) [0..<length vs])"
proof -
  let ?self = "fst (load_data input_data self s)"
  let ?s = "simulate_device vs (snd (load_data input_data self s))"
  have base: "base_addr (mmio ?self) = BASE_ADDRESS" and len: "array_length ?self = length vs"
    using assms by (simp_all add: load_data_eq)
  have ack: "polled dev ?self ?s 0 (ack_addr ?self) = 1"
    by (simp add: polled_def ack_addr_def cmd_addr_def base simulate_device_memory
        CMD_OFFSET_def ACK_OFFSET_def)
  have out: "polled dev ?self ?s 0 (output_addr ?self i) = (if i = 256 \<or> i = 257 then 1 else vs ! i)"
    if "i < length vs" for i
  proof -
    have oa: "output_addr ?self j = BASE_ADDRESS + (OUTPUT_DATA_OFFSET + j * 4)" for j
      by (simp add: output_addr_def base)
    have ca: "cmd_addr ?self = BASE_ADDRESS + CMD_OFFSET"
      by (simp add: cmd_addr_def base)
    consider "i = 256" | "i = 257" | "i \<noteq> 256" "i \<noteq> 257" by blast
    then show ?thesis
    proof cases
      case 1
      then have "output_addr ?self i = cmd_addr ?self"
        by (simp add: oa ca OUTPUT_DATA_OFFSET_def CMD_OFFSET_def)
      with 1 show ?thesis by (simp add: polled_def)
    next
      case 2
      then have "output_addr ?self i = BASE_ADDRESS + ACK_OFFSET"
        and "output_addr ?self i \<noteq> cmd_addr ?self"
        by (simp_all add: oa ca OUTPUT_DATA_OFFSET_def CMD_OFFSET_def ACK_OFFSET_def)
      with 2 show ?thesis by (simp add: polled_def simulate_device_memory)
    next
      case 3
      then have "output_addr ?self i \<noteq> BASE_ADDRESS + ACK_OFFSET"
        and "output_addr ?self i \<noteq> cmd_addr ?self"
        by (simp_all add: oa ca OUTPUT_DATA_OFFSET_def CMD_OFFSET_def ACK_OFFSET_def)
      moreover have "\<exists>j<length vs. output_addr ?self i = BASE_ADDRESS + (OUTPUT_DATA_OFFSET + j * 4)"
        using that oa by blast
      moreover have "(output_addr ?self i - BASE_ADDRESS - OUTPUT_DATA_OFFSET) div 4 = i"
        by (simp add: oa)
      ultimately show ?thesis using 3 by (simp add: polled_def simulate_device_memory)
    qed
  qed
  have "process dev ?self ?s \<noteq> None \<and>
        fst (the (process dev ?self ?s)) =
          map (\<lambda>i. polled dev ?self ?s 0 (output_addr ?self i)) [0..<length vs]"
    using process_found[of dev ?self ?s 0] ack len by simp
  moreover have "map (\<lambda>i. polled dev ?self ?s 0 (output_addr ?self i)) [0..<length vs] =
      map (\<lambda>i. if i = 256 \<or> i = 257 then 1 else vs ! i) [0..<length vs]"
    by (rule map_cong) (simp_all add: out)
  ultimately show ?thesis by (auto simp: option.map_sel)
qed

subsection \<open>C1: a full cycle returns what the device wrote\<close>

text \<open>
  The output word \<open>i\<close> lies at offset \<open>0x400 + 4 * i\<close>, so word 256 is the command
  register and word 257 the acknowledge register. \<open>process\<close> writes 1 to the command
  register before it reads the output back, and the device writes 1 to the acknowledge
  register after the output: a list of more than 256 words comes back with 1 at the
  indices 256 and 257, whatever the device wrote there.
\<close>

text \<open>
  Claim C1, as amended: for every input list of at most 256 words and every list \<open>vs\<close> of
  the same length, after \<open>load_data(input_data)\<close> and after the device has written
  \<open>vs[i]\<close> to the output offset \<open>0x400 + 4 * i\<close> for each \<open>i\<close> and 1 to the acknowledge
  offset, \<open>process()\<close> returns, and returns exactly \<open>vs\<close>: the same length, the same
  order. This holds for every object on the notebook's window (the constructor makes no
  other), every device behaviour during the poll and every earlier state of the memory.
\<close>

theorem process_returns_device_output:
  assumes "length vs = length input_data" and "length input_data \<le> 256"
    and "base_addr (mmio self) = BASE_ADDRESS"
  shows "map_option fst
           (process dev (fst (load_data input_data self s))
              (simulate_device vs (snd (load_data input_data self s)))) = Some vs"
proof -
  have "map (\<lambda>i. if i = 256 \<or> i = 257 then 1 else vs ! i) [0..<length vs] = vs"
    using assms(1,2) by (intro nth_equalityI) auto
  with cycle_output[OF assms(1,3)] show ?thesis by simp
qed

text \<open>The scenario of the notebook: the input 0, ..., 9, the device writing
  \<open>input_data[i] + 1\<close>, a fresh object on a zeroed memory.\<close>

theorem process_returns_device_output_witness:
  "length [1, 2, 3, 4, 5, 6, 7, 8, 9, 10 :: u32] = length [0, 1, 2, 3, 4, 5, 6, 7, 8, 9 :: u32] \<and>
   length [0, 1, 2, 3, 4, 5, 6, 7, 8, 9 :: u32] \<le> 256 \<and>
   base_addr (mmio (fst (init power_on))) = BASE_ADDRESS \<and>
   map (\<lambda>x. x + 1) [0, 1, 2, 3, 4, 5, 6, 7, 8, 9 :: u32] = [1, 2, 3, 4, 5, 6, 7, 8, 9, 10] \<and>
   notebook_run idle_device [0, 1, 2, 3, 4, 5, 6, 7, 8, 9] [1, 2, 3, 4, 5, 6, 7, 8, 9, 10] power_on
     = Some [1, 2, 3, 4, 5, 6, 7, 8, 9, 10]"
  using process_returns_device_output[of "[1, 2, 3, 4, 5, 6, 7, 8, 9, 10]" "[0, 1, 2, 3, 4, 5, 6, 7, 8, 9]"
      "fst (init power_on)" idle_device "snd (init power_on)"]
  by (simp add: notebook_run_def init_def Let_def case_prod_beta)

text \<open>With 257 words the claim as first stated fails: the device wrote 5 to every output
  word, and \<open>process\<close> returns 1 as the last word.\<close>

theorem process_long_input_counterexample:
  "notebook_run idle_device (replicate 257 0) (replicate 257 5) power_on
     = Some (replicate 256 5 @ [1]) \<and>
   replicate 256 5 @ [1] \<noteq> replicate 257 (5 :: u32)"
proof
  have "map (\<lambda>i. if i = 256 \<or> i = 257 then 1 else replicate 257 (5 :: u32) ! i) [0..<257]
      = replicate 256 5 @ [1]"
    by (intro nth_equalityI) (auto simp: nth_append)
  with cycle_output[of "replicate 257 5" "replicate 257 0" "fst (init power_on)" idle_device
      "snd (init power_on)"]
  show "notebook_run idle_device (replicate 257 0) (replicate 257 5) power_on
     = Some (replicate 256 5 @ [1])"
    by (simp add: notebook_run_def init_def Let_def case_prod_beta)
  show "replicate 256 5 @ [1] \<noteq> replicate 257 (5 :: u32)"
  proof
    assume e: "replicate 256 5 @ [1] = replicate 257 (5 :: u32)"
    have "(replicate 256 5 @ [1]) ! 256 = replicate 257 (5 :: u32) ! 256"
      by (simp only: e)
    then show False by (simp add: nth_append)
  qed
qed

lemma cmd_ack_distinct: "cmd_addr self \<noteq> ack_addr self"
  by (simp add: cmd_addr_def ack_addr_def CMD_OFFSET_def ACK_OFFSET_def)

lemma polled_0_ack: "polled dev self s 0 (ack_addr self) = memory s (ack_addr self)"
  using cmd_ack_distinct[of self] by (simp add: polled_def)

lemma init_eq:
  "init s = (\<lparr>mmio = \<lparr>base_addr = BASE_ADDRESS, addr_length = ADDRESS_LENGTH\<rparr>, array_length = 0\<rparr>,
             s\<lparr>memory := (memory s)(BASE_ADDRESS + CMD_OFFSET := 0),
               accesses := accesses s @ [Write (BASE_ADDRESS + CMD_OFFSET) 0]\<rparr>)"
  by (simp add: init_def mmio_write_def)

text \<open>A fresh object whose acknowledge register the device has set.\<close>
lemma acked_fresh:
  "process idle_device (fst (init power_on)) (simulate_device [] (snd (init power_on))) =
     Some ([], \<lparr>memory = (\<lambda>a. 0)(BASE_ADDRESS + CMD_OFFSET := 1, BASE_ADDRESS + ACK_OFFSET := 0),
                accesses = [Write (BASE_ADDRESS + CMD_OFFSET) 0, Write (BASE_ADDRESS + ACK_OFFSET) 1,
                            Write (BASE_ADDRESS + CMD_OFFSET) 1, Read (BASE_ADDRESS + ACK_OFFSET) 1,
                            Write (BASE_ADDRESS + ACK_OFFSET) 0]\<rparr>)"
proof -
  let ?self = "fst (init power_on)" and ?s = "simulate_device [] (snd (init power_on))"
  have a: "polled idle_device ?self ?s 0 (ack_addr ?self) = 1"
    by (simp add: polled_0_ack simulate_device_memory) (simp add: ack_addr_def init_eq)
  show ?thesis
    using process_found[of idle_device ?self ?s 0, OF a]
    by (simp add: init_eq polled_def simulate_device_eq write_all_0 mmio_write_def power_on_def
        cmd_addr_def ack_addr_def)
qed

subsection \<open>C2: \<open>process\<close> resets the acknowledge register\<close>

text \<open>
  Claim C2: whenever \<open>process()\<close> returns, for every stored \<open>array_length\<close>, every
  memory contents and every device, the last access it made is the write of 0 to the
  acknowledge offset, so the acknowledge register holds 0 in the state it returns.
\<close>

theorem process_resets_ack:
  assumes "process dev self s = Some r"
  shows "memory (snd r) (ack_addr self) = 0 \<and>
         (\<exists>evs. accesses (snd r) = accesses s @ evs @ [Write (ack_addr self) 0])"
proof -
  from assms obtain n where
    "r = (map (\<lambda>i. polled dev self s n (output_addr self i)) [0..<array_length self],
           s\<lparr>memory := (polled dev self s n)(ack_addr self := 0),
             accesses := accesses s @ [Write (cmd_addr self) 1] @
               map (\<lambda>j. Read (ack_addr self) (polled dev self s j (ack_addr self))) [0..<Suc n] @
               map (\<lambda>i. Read (output_addr self i) (polled dev self s n (output_addr self i)))
                 [0..<array_length self] @
               [Write (ack_addr self) 0]\<rparr>)"
    by (rule process_SomeE)
  then show ?thesis by (simp del: upt_Suc)
qed

text \<open>A fresh object, with the acknowledge register set by the device, on a zeroed
  memory.\<close>

theorem process_resets_ack_witness:
  "process idle_device (fst (init power_on)) (simulate_device [] (snd (init power_on))) \<noteq> None \<and>
   memory (snd (the (process idle_device (fst (init power_on))
                       (simulate_device [] (snd (init power_on))))))
          (BASE_ADDRESS + ACK_OFFSET) = 0 \<and>
   last (accesses (snd (the (process idle_device (fst (init power_on))
                       (simulate_device [] (snd (init power_on)))))))
     = Write (BASE_ADDRESS + ACK_OFFSET) 0"
  using process_resets_ack[of idle_device "fst (init power_on)"
      "simulate_device [] (snd (init power_on))"
      "the (process idle_device (fst (init power_on)) (simulate_device [] (snd (init power_on))))"]
  by (simp add: acked_fresh)

lemma polled_delayed:
  "polled (ack_after 2) (fst (init power_on)) (snd (init power_on)) n (BASE_ADDRESS + ACK_OFFSET)
     = (if 3 \<le> n then 1 else 0)"
proof -
  let ?m = "(memory (snd (init power_on)))(cmd_addr (fst (init power_on)) := 1)"
  have m: "?m (BASE_ADDRESS + ACK_OFFSET) = 0"
    by (simp add: init_eq power_on_def cmd_addr_def CMD_OFFSET_def ACK_OFFSET_def)
  have late: "device_run (ack_after 2) k j m' (BASE_ADDRESS + ACK_OFFSET) = m' (BASE_ADDRESS + ACK_OFFSET)"
    if "2 < k" for k j m'
    using that by (induction j arbitrary: k m') (simp_all add: ack_after_def)
  have r0: "device_run (ack_after 2) 0 0 ?m (BASE_ADDRESS + ACK_OFFSET) = 0" using m by simp
  have r1: "device_run (ack_after 2) 0 1 ?m (BASE_ADDRESS + ACK_OFFSET) = 0"
    using m by (simp add: ack_after_def)
  have r2: "device_run (ack_after 2) 0 2 ?m (BASE_ADDRESS + ACK_OFFSET) = 0"
    using m by (simp add: ack_after_def numeral_2_eq_2)
  have r3: "device_run (ack_after 2) 0 (Suc (Suc (Suc j))) ?m (BASE_ADDRESS + ACK_OFFSET) = 1" for j
    by (simp add: late) (simp add: ack_after_def numeral_2_eq_2)
  consider "n = 0" | "n = 1" | "n = 2" | j where "n = Suc (Suc (Suc j))"
    by (metis One_nat_def Suc_1 not0_implies_Suc)
  then show ?thesis
    using r0 r1 r2 r3 by cases (simp_all add: polled_def)
qed

lemma polled_idle:
  "polled idle_device self s n = (memory s)(cmd_addr self := 1)"
  by (simp add: polled_def device_run_idle)

subsection \<open>C3: the poll loop has no timeout\<close>

text \<open>
  Claim C3: \<open>process()\<close> first writes 1 to the command offset and then polls the
  acknowledge offset. It returns if and only if some poll reads 1, that is, if the memory
  that one of the polls sees holds 1 at the acknowledge offset. If no poll ever sees 1,
  it does not return: the result is \<open>None\<close>, the loop that never ends. The result type
  has no error value, so no timeout is reported. When it returns, the accesses it made
  start with the write of 1 to the command offset, followed by the polls, \<open>n\<close> of them
  reading something else than 1 and the last one reading 1.
\<close>

theorem process_terminates_iff:
  "(process dev self s \<noteq> None) = (\<exists>n. polled dev self s n (ack_addr self) = 1) \<and>
   ((\<forall>n. polled dev self s n (ack_addr self) \<noteq> 1) \<longrightarrow> process dev self s = None) \<and>
   (\<forall>r. process dev self s = Some r \<longrightarrow>
      (\<exists>n evs. polled dev self s n (ack_addr self) = 1 \<and>
         (\<forall>j<n. polled dev self s j (ack_addr self) \<noteq> 1) \<and>
         accesses (snd r) = accesses s @ [Write (cmd_addr self) 1] @
           map (\<lambda>j. Read (ack_addr self) (polled dev self s j (ack_addr self))) [0..<Suc n] @ evs))"
proof (intro conjI allI impI)
  show "(process dev self s \<noteq> None) = (\<exists>n. polled dev self s n (ack_addr self) = 1)"
    using process_Some_iff[of dev self s] by auto
next
  assume "\<forall>n. polled dev self s n (ack_addr self) \<noteq> 1"
  then show "process dev self s = None" by (rule process_None)
next
  fix r assume "process dev self s = Some r"
  then obtain n where n: "polled dev self s n (ack_addr self) = 1"
    "\<forall>j<n. polled dev self s j (ack_addr self) \<noteq> 1"
    and r: "r = (map (\<lambda>i. polled dev self s n (output_addr self i)) [0..<array_length self],
           s\<lparr>memory := (polled dev self s n)(ack_addr self := 0),
             accesses := accesses s @ [Write (cmd_addr self) 1] @
               map (\<lambda>j. Read (ack_addr self) (polled dev self s j (ack_addr self))) [0..<Suc n] @
               map (\<lambda>i. Read (output_addr self i) (polled dev self s n (output_addr self i)))
                 [0..<array_length self] @
               [Write (ack_addr self) 0]\<rparr>)"
    by (rule process_SomeE)
  from r have "accesses (snd r) = accesses s @ [Write (cmd_addr self) 1] @
           map (\<lambda>j. Read (ack_addr self) (polled dev self s j (ack_addr self))) [0..<Suc n] @
           (map (\<lambda>i. Read (output_addr self i) (polled dev self s n (output_addr self i)))
                 [0..<array_length self] @ [Write (ack_addr self) 0])"
    by (simp del: upt_Suc)
  with n show "\<exists>n evs. polled dev self s n (ack_addr self) = 1 \<and>
         (\<forall>j<n. polled dev self s j (ack_addr self) \<noteq> 1) \<and>
         accesses (snd r) = accesses s @ [Write (cmd_addr self) 1] @
           map (\<lambda>j. Read (ack_addr self) (polled dev self s j (ack_addr self))) [0..<Suc n] @ evs"
    by blast
qed

text \<open>A device that sets the acknowledge register after the third poll makes
  \<open>process\<close> return; with a device that does nothing, on a zeroed memory, it never
  returns.\<close>

theorem process_terminates_iff_witness:
  "process (ack_after 2) (fst (init power_on)) (snd (init power_on)) \<noteq> None \<and>
   polled (ack_after 2) (fst (init power_on)) (snd (init power_on)) 3 (BASE_ADDRESS + ACK_OFFSET) = 1 \<and>
   (\<forall>n. polled idle_device (fst (init power_on)) (snd (init power_on)) n (BASE_ADDRESS + ACK_OFFSET) \<noteq> 1) \<and>
   process idle_device (fst (init power_on)) (snd (init power_on)) = None"
proof -
  have a: "ack_addr (fst (init power_on)) = BASE_ADDRESS + ACK_OFFSET"
    by (simp add: ack_addr_def init_eq)
  have p3: "polled (ack_after 2) (fst (init power_on)) (snd (init power_on)) 3 (BASE_ADDRESS + ACK_OFFSET) = 1"
    by (simp add: polled_delayed)
  have never: "\<forall>n. polled idle_device (fst (init power_on)) (snd (init power_on)) n (BASE_ADDRESS + ACK_OFFSET) \<noteq> 1"
    by (simp add: polled_idle init_eq power_on_def cmd_addr_def CMD_OFFSET_def ACK_OFFSET_def)
  from p3 have ex: "\<exists>n. polled (ack_after 2) (fst (init power_on)) (snd (init power_on)) n
      (ack_addr (fst (init power_on))) = 1"
    unfolding a by blast
  show ?thesis
    using process_terminates_iff[of "ack_after 2" "fst (init power_on)" "snd (init power_on)"]
      process_terminates_iff[of idle_device "fst (init power_on)" "snd (init power_on)"]
      ex p3 never
    unfolding a by simp
qed

lemma writes_append: "writes (xs @ ys) = writes xs @ writes ys"
  by (induction xs rule: writes.induct) simp_all

lemma writes_Reads: "writes (map (\<lambda>i. Read (f i) (g i)) xs) = []"
  by (induction xs) simp_all

lemma writes_Writes: "writes (map (\<lambda>i. Write (f i) (g i)) xs) = map (\<lambda>i. (f i, g i)) xs"
  by (induction xs) simp_all

lemma load_data_accesses:
  "accesses (snd (load_data xs self s)) =
     accesses s @ map (\<lambda>i. Write (input_addr self i) (xs ! i)) [0..<length xs]"
  by (simp add: load_data_eq write_all_accesses input_addr_def)

lemma load_data_memory:
  "memory (snd (load_data xs self s)) a =
     (if \<exists>i<length xs. a = input_addr self i
      then xs ! ((a - base_addr (mmio self) - INPUT_DATA_OFFSET) div 4)
      else memory s a)"
  by (simp add: load_data_eq write_all_memory input_addr_def)

lemma load_data_nth:
  "i < length xs \<Longrightarrow> memory (snd (load_data xs self s)) (input_addr self i) = xs ! i"
  by (simp add: load_data_eq write_all_nth input_addr_def)

lemma input_addr_inj: "input_addr self i = input_addr self j \<longleftrightarrow> i = j"
  by (simp add: input_addr_def)

lemma input_addr_output: "input_addr self (256 + i) = output_addr self i"
  by (simp add: input_addr_def output_addr_def INPUT_DATA_OFFSET_def OUTPUT_DATA_OFFSET_def)

lemma input_addr_cmd: "input_addr self 512 = cmd_addr self"
  by (simp add: input_addr_def cmd_addr_def INPUT_DATA_OFFSET_def CMD_OFFSET_def)

lemma input_addr_ack: "input_addr self 513 = ack_addr self"
  by (simp add: input_addr_def ack_addr_def INPUT_DATA_OFFSET_def ACK_OFFSET_def)

subsection \<open>C5: \<open>load_data\<close> checks no bounds\<close>

text \<open>
  Claim C5: for every input list, \<open>load_data\<close> writes \<open>input_data[i]\<close> to the offset
  \<open>INPUT_DATA_OFFSET + i * 4\<close> for every \<open>i\<close> below the length, and nothing else, with
  no check and no error. So an input of 257 words or more puts word 256 at the offset
  0x400, the start of the output area, and an input of 513 words or more puts word 512
  at the offset 0x800, the command register.
\<close>

theorem load_data_unchecked:
  "accesses (snd (load_data input_data self s)) =
     accesses s @
     map (\<lambda>i. Write (base_addr (mmio self) + (INPUT_DATA_OFFSET + i * 4)) (input_data ! i))
       [0..<length input_data] \<and>
   (\<forall>i<length input_data.
      memory (snd (load_data input_data self s))
        (base_addr (mmio self) + (INPUT_DATA_OFFSET + i * 4)) = input_data ! i) \<and>
   (257 \<le> length input_data \<longrightarrow>
      memory (snd (load_data input_data self s)) (base_addr (mmio self) + OUTPUT_DATA_OFFSET)
        = input_data ! 256) \<and>
   (513 \<le> length input_data \<longrightarrow>
      memory (snd (load_data input_data self s)) (base_addr (mmio self) + CMD_OFFSET)
        = input_data ! 512)"
proof (intro conjI allI impI)
  show "accesses (snd (load_data input_data self s)) =
     accesses s @
     map (\<lambda>i. Write (base_addr (mmio self) + (INPUT_DATA_OFFSET + i * 4)) (input_data ! i))
       [0..<length input_data]"
    by (simp add: load_data_accesses input_addr_def)
next
  fix i assume "i < length input_data"
  then show "memory (snd (load_data input_data self s))
        (base_addr (mmio self) + (INPUT_DATA_OFFSET + i * 4)) = input_data ! i"
    using load_data_nth[of i input_data self s] by (simp add: input_addr_def)
next
  assume "257 \<le> length input_data"
  then have "256 < length input_data" by simp
  from load_data_nth[OF this, of self s]
  show "memory (snd (load_data input_data self s)) (base_addr (mmio self) + OUTPUT_DATA_OFFSET)
        = input_data ! 256"
    by (simp add: input_addr_def INPUT_DATA_OFFSET_def OUTPUT_DATA_OFFSET_def)
next
  assume "513 \<le> length input_data"
  then have "512 < length input_data" by simp
  from load_data_nth[OF this, of self s]
  show "memory (snd (load_data input_data self s)) (base_addr (mmio self) + CMD_OFFSET)
        = input_data ! 512"
    by (simp add: input_addr_def INPUT_DATA_OFFSET_def CMD_OFFSET_def)
qed

text \<open>Loading 513 words equal to 7 on a zeroed memory leaves 7 at the start of the
  output area and in the command register.\<close>

theorem load_data_unchecked_witness:
  "(257 :: nat) \<le> length (replicate 513 (7 :: u32)) \<and>
   (513 :: nat) \<le> length (replicate 513 (7 :: u32)) \<and>
   memory (snd (init power_on)) (BASE_ADDRESS + OUTPUT_DATA_OFFSET) = 0 \<and>
   memory (snd (init power_on)) (BASE_ADDRESS + CMD_OFFSET) = 0 \<and>
   memory (snd (load_data (replicate 513 7) (fst (init power_on)) (snd (init power_on))))
     (BASE_ADDRESS + OUTPUT_DATA_OFFSET) = 7 \<and>
   memory (snd (load_data (replicate 513 7) (fst (init power_on)) (snd (init power_on))))
     (BASE_ADDRESS + CMD_OFFSET) = 7"
  using load_data_unchecked[of "replicate 513 7" "fst (init power_on)" "snd (init power_on)"]
  by (simp add: init_eq power_on_def OUTPUT_DATA_OFFSET_def CMD_OFFSET_def)

subsection \<open>C6: construction writes IDLE to the command register\<close>

text \<open>
  Claim C6: for every earlier contents of the memory, after construction the command
  register (offset 0x800) holds 0, and the write of 0 to the command offset is the only
  access that construction makes: the rest of the memory is as before.
\<close>

theorem init_writes_idle:
  "memory (snd (init s)) (BASE_ADDRESS + CMD_OFFSET) = 0x0 \<and>
   CMD_OFFSET = 0x800 \<and>
   memory (snd (init s)) = (memory s)(BASE_ADDRESS + CMD_OFFSET := 0x0) \<and>
   accesses (snd (init s)) = accesses s @ [Write (BASE_ADDRESS + CMD_OFFSET) 0x0]"
  by (simp add: init_eq CMD_OFFSET_def)

subsection \<open>C7: \<open>process\<close> with nothing loaded\<close>

text \<open>
  Claim C7: construction sets \<open>array_length\<close> to 0, and so does \<open>load_data([])\<close>, which
  leaves the machine as it was. When \<open>array_length\<close> is 0 and the acknowledge register
  already reads 1, \<open>process()\<close> returns the empty list: a normal return, not an error.
\<close>

theorem process_empty_returns_empty:
  "array_length (fst (init s0)) = 0 \<and>
   array_length (fst (load_data [] self s)) = 0 \<and>
   snd (load_data [] self s) = s \<and>
   (array_length self = 0 \<and> memory s (ack_addr self) = 1 \<longrightarrow>
      map_option fst (process dev self s) = Some [])"
proof (intro conjI impI)
  show "array_length (fst (init s0)) = 0" by (simp add: init_eq)
  show "array_length (fst (load_data [] self s)) = 0" by (simp add: load_data_eq)
  show "snd (load_data [] self s) = s" by (simp add: load_data_eq write_all_0)
next
  assume a: "array_length self = 0 \<and> memory s (ack_addr self) = 1"
  then have "polled dev self s 0 (ack_addr self) = 1" by (simp add: polled_0_ack)
  from process_found[of dev self s 0, OF this] a
  show "map_option fst (process dev self s) = Some []" by simp
qed

text \<open>A fresh object that never loaded anything, the acknowledge register set.\<close>

theorem process_empty_returns_empty_witness:
  "array_length (fst (init power_on)) = 0 \<and>
   memory (simulate_device [] (snd (init power_on))) (ack_addr (fst (init power_on))) = 1 \<and>
   map_option fst (process idle_device (fst (init power_on))
                     (simulate_device [] (snd (init power_on)))) = Some []"
proof -
  have "array_length (fst (init power_on)) = 0" by (simp add: init_eq)
  moreover have "memory (simulate_device [] (snd (init power_on))) (ack_addr (fst (init power_on))) = 1"
    by (simp add: simulate_device_memory ack_addr_def init_eq)
  ultimately show ?thesis
    using process_empty_returns_empty[of power_on "fst (init power_on)"
        "simulate_device [] (snd (init power_on))" idle_device]
    by simp
qed

lemma delayed_fresh:
  "process (ack_after 2) (fst (init power_on)) (snd (init power_on)) =
     Some ([], \<lparr>memory = (\<lambda>a. 0)(BASE_ADDRESS + CMD_OFFSET := 1, BASE_ADDRESS + ACK_OFFSET := 0),
                accesses = [Write (BASE_ADDRESS + CMD_OFFSET) 0,
                            Write (BASE_ADDRESS + CMD_OFFSET) 1,
                            Read (BASE_ADDRESS + ACK_OFFSET) 0,
                            Read (BASE_ADDRESS + ACK_OFFSET) 0,
                            Read (BASE_ADDRESS + ACK_OFFSET) 0,
                            Read (BASE_ADDRESS + ACK_OFFSET) 1,
                            Write (BASE_ADDRESS + ACK_OFFSET) 0]\<rparr>)"
proof -
  let ?self = "fst (init power_on)" and ?s = "snd (init power_on)"
  have aa: "ack_addr ?self = BASE_ADDRESS + ACK_OFFSET" by (simp add: ack_addr_def init_eq)
  have a: "polled (ack_after 2) ?self ?s 3 (ack_addr ?self) = 1"
    and b: "\<forall>j<3. polled (ack_after 2) ?self ?s j (ack_addr ?self) \<noteq> 1"
    by (simp_all add: aa polled_delayed)
  have m: "(polled (ack_after 2) ?self ?s 3)(BASE_ADDRESS + ACK_OFFSET := 0) =
      (\<lambda>a. 0)(BASE_ADDRESS + CMD_OFFSET := 1, BASE_ADDRESS + ACK_OFFSET := 0)"
    by (rule ext)
      (simp add: polled_def numeral_3_eq_3 ack_after_def numeral_2_eq_2 init_eq power_on_def
        cmd_addr_def)
  have u: "[0..<4] = [0, 1, 2, 3 :: nat]" by (simp add: upt_rec)
  show ?thesis
    using process_found[of "ack_after 2" ?self ?s 3, OF a b]
    by (simp add: aa m polled_delayed del: upt_Suc) (simp add: init_eq power_on_def cmd_addr_def u)
qed

subsection \<open>C10: \<open>process\<close> with nothing loaded still drives the registers\<close>

text \<open>
  Claim C10: with \<open>array_length\<close> equal to 0, \<open>process()\<close> still writes 1 to the
  command offset, still polls the acknowledge offset until a poll reads 1, never returning
  if none does, and still writes 0 to the acknowledge offset before it returns the empty
  list. Its accesses are the command write, the polls and the acknowledge write: only the
  reads of the output area are missing.
\<close>

theorem process_empty_side_effects:
  assumes "array_length self = 0"
  shows "(\<forall>r. process dev self s = Some r \<longrightarrow>
            fst r = [] \<and>
            (\<exists>n. polled dev self s n (ack_addr self) = 1 \<and>
                 (\<forall>j<n. polled dev self s j (ack_addr self) \<noteq> 1) \<and>
                 accesses (snd r) = accesses s @ [Write (cmd_addr self) 1] @
                   map (\<lambda>j. Read (ack_addr self) (polled dev self s j (ack_addr self))) [0..<Suc n] @
                   [Write (ack_addr self) 0] \<and>
                 memory (snd r) = (polled dev self s n)(ack_addr self := 0))) \<and>
         ((\<forall>n. polled dev self s n (ack_addr self) \<noteq> 1) \<longrightarrow> process dev self s = None) \<and>
         ((\<exists>n. polled dev self s n (ack_addr self) = 1) \<longrightarrow> process dev self s \<noteq> None)"
proof (intro conjI allI impI)
  fix r assume "process dev self s = Some r"
  then obtain n where n: "polled dev self s n (ack_addr self) = 1"
    "\<forall>j<n. polled dev self s j (ack_addr self) \<noteq> 1"
    and r: "r = (map (\<lambda>i. polled dev self s n (output_addr self i)) [0..<array_length self],
           s\<lparr>memory := (polled dev self s n)(ack_addr self := 0),
             accesses := accesses s @ [Write (cmd_addr self) 1] @
               map (\<lambda>j. Read (ack_addr self) (polled dev self s j (ack_addr self))) [0..<Suc n] @
               map (\<lambda>i. Read (output_addr self i) (polled dev self s n (output_addr self i)))
                 [0..<array_length self] @
               [Write (ack_addr self) 0]\<rparr>)"
    by (rule process_SomeE)
  from r assms show "fst r = []" by simp
  from r assms have "accesses (snd r) = accesses s @ [Write (cmd_addr self) 1] @
                   map (\<lambda>j. Read (ack_addr self) (polled dev self s j (ack_addr self))) [0..<Suc n] @
                   [Write (ack_addr self) 0]"
    and "memory (snd r) = (polled dev self s n)(ack_addr self := 0)"
    by (simp_all del: upt_Suc)
  with n show "\<exists>n. polled dev self s n (ack_addr self) = 1 \<and>
                 (\<forall>j<n. polled dev self s j (ack_addr self) \<noteq> 1) \<and>
                 accesses (snd r) = accesses s @ [Write (cmd_addr self) 1] @
                   map (\<lambda>j. Read (ack_addr self) (polled dev self s j (ack_addr self))) [0..<Suc n] @
                   [Write (ack_addr self) 0] \<and>
                 memory (snd r) = (polled dev self s n)(ack_addr self := 0)"
    by blast
next
  assume "\<forall>n. polled dev self s n (ack_addr self) \<noteq> 1"
  then show "process dev self s = None" by (rule process_None)
next
  assume "\<exists>n. polled dev self s n (ack_addr self) = 1"
  then show "process dev self s \<noteq> None" using process_Some_iff[of dev self s] by auto
qed

text \<open>A fresh object on a zeroed memory: with a device that sets the acknowledge register
  after the third poll the accesses are one command write, four polls and the reset;
  with a device that does nothing \<open>process\<close> never returns.\<close>

theorem process_empty_side_effects_witness:
  "array_length (fst (init power_on)) = 0 \<and>
   process (ack_after 2) (fst (init power_on)) (snd (init power_on)) =
     Some ([], \<lparr>memory = (\<lambda>a. 0)(BASE_ADDRESS + CMD_OFFSET := 1, BASE_ADDRESS + ACK_OFFSET := 0),
                accesses = [Write (BASE_ADDRESS + CMD_OFFSET) 0,
                            Write (BASE_ADDRESS + CMD_OFFSET) 1,
                            Read (BASE_ADDRESS + ACK_OFFSET) 0,
                            Read (BASE_ADDRESS + ACK_OFFSET) 0,
                            Read (BASE_ADDRESS + ACK_OFFSET) 0,
                            Read (BASE_ADDRESS + ACK_OFFSET) 1,
                            Write (BASE_ADDRESS + ACK_OFFSET) 0]\<rparr>) \<and>
   (\<forall>n. polled idle_device (fst (init power_on)) (snd (init power_on)) n
          (ack_addr (fst (init power_on))) \<noteq> 1) \<and>
   process idle_device (fst (init power_on)) (snd (init power_on)) = None"
proof -
  have z: "array_length (fst (init power_on)) = 0" by (simp add: init_eq)
  have never: "\<forall>n. polled idle_device (fst (init power_on)) (snd (init power_on)) n
          (ack_addr (fst (init power_on))) \<noteq> 1"
    by (simp add: polled_idle init_eq power_on_def cmd_addr_def ack_addr_def CMD_OFFSET_def
        ACK_OFFSET_def)
  show ?thesis
    using process_empty_side_effects[OF z, of idle_device "snd (init power_on)"]
      process_empty_side_effects[OF z, of "ack_after 2" "snd (init power_on)"] z never
    by (simp add: delayed_fresh)
qed

lemma load_twice_eq:
  "load_twice a b self s =
     load_data b (fst (load_data a self s)) (snd (load_data a self s))"
  by (simp add: load_twice_def case_prod_beta)

lemma load_data_self: "fst (load_data xs self s) = self\<lparr>array_length := length xs\<rparr>"
  by (simp add: load_data_eq)

lemma input_addr_array_length [simp]: "input_addr (self\<lparr>array_length := n\<rparr>) i = input_addr self i"
  by (simp add: input_addr_def)

lemma load_data_other:
  "(\<And>i. i < length xs \<Longrightarrow> a \<noteq> input_addr self i) \<Longrightarrow>
   memory (snd (load_data xs self s)) a = memory s a"
  by (auto simp: load_data_memory)

subsection \<open>C4: loading twice\<close>

text \<open>
  \<open>load_data\<close> writes the words of its argument and clears nothing. After
  \<open>load_data(a)\<close> and \<open>load_data(b)\<close> with \<open>a\<close> longer than \<open>b\<close>, the input words from
  \<open>len(b)\<close> on still hold what \<open>a\<close> put there, which a single \<open>load_data(b)\<close> would not
  have written.
\<close>

text \<open>
  Claim C4, as amended: after \<open>load_data(a)\<close> followed by \<open>load_data(b)\<close> the object is
  the same as after a single \<open>load_data(b)\<close>, with \<open>array_length = len(b)\<close>; the input
  words below \<open>len(b)\<close> hold \<open>b\<close>; the input words \<open>i\<close> with \<open>len(b) \<le> i < len(a)\<close> hold
  \<open>a[i]\<close>; everywhere else the memory is the one a single \<open>load_data(b)\<close> gives. So when
  \<open>a\<close> is not longer than \<open>b\<close>, the memory is the same as after a single \<open>load_data(b)\<close>.
\<close>

theorem load_twice_last_write_wins:
  "fst (load_twice a b self s) = fst (load_data b self s) \<and>
   array_length (fst (load_twice a b self s)) = length b \<and>
   (\<forall>i<length b. memory (snd (load_twice a b self s)) (input_addr self i) = b ! i) \<and>
   (\<forall>i. length b \<le> i \<and> i < length a \<longrightarrow>
        memory (snd (load_twice a b self s)) (input_addr self i) = a ! i) \<and>
   (\<forall>x. (\<forall>i. length b \<le> i \<and> i < length a \<longrightarrow> x \<noteq> input_addr self i) \<longrightarrow>
        memory (snd (load_twice a b self s)) x = memory (snd (load_data b self s)) x) \<and>
   (length a \<le> length b \<longrightarrow>
        memory (snd (load_twice a b self s)) = memory (snd (load_data b self s)))"
proof -
  let ?s1 = "snd (load_data a self s)"
  have tw: "memory (snd (load_twice a b self s)) x =
      (if \<exists>i<length b. x = input_addr self i then memory (snd (load_data b self s)) x
       else memory ?s1 x)" for x
  proof -
    have "memory (snd (load_twice a b self s)) x =
      (if \<exists>i<length b. x = input_addr self i
       then b ! ((x - base_addr (mmio self) - INPUT_DATA_OFFSET) div 4)
       else memory ?s1 x)"
      unfolding load_twice_eq by (subst load_data_memory) (auto simp: load_data_self)
    moreover have "memory (snd (load_data b self s)) x =
      (if \<exists>i<length b. x = input_addr self i
       then b ! ((x - base_addr (mmio self) - INPUT_DATA_OFFSET) div 4)
       else memory s x)"
      by (rule load_data_memory)
    ultimately show ?thesis
      by (cases "\<exists>i<length b. x = input_addr self i") auto
  qed
  have one: "fst (load_twice a b self s) = fst (load_data b self s)"
    by (simp add: load_twice_eq load_data_self)
  have two: "array_length (fst (load_twice a b self s)) = length b"
    by (simp add: load_twice_eq load_data_self)
  have three: "memory (snd (load_twice a b self s)) (input_addr self i) = b ! i"
    if "i < length b" for i
    using that load_data_nth[of i b "self\<lparr>array_length := length a\<rparr>" ?s1]
    by (simp add: load_twice_eq load_data_self)
  have four: "memory (snd (load_twice a b self s)) (input_addr self i) = a ! i"
    if "length b \<le> i \<and> i < length a" for i
  proof -
    from that have "\<not> (\<exists>j<length b. input_addr self i = input_addr self j)"
      by (auto simp: input_addr_inj)
    then have "memory (snd (load_twice a b self s)) (input_addr self i)
        = memory ?s1 (input_addr self i)"
      by (simp only: tw if_False)
    with that show ?thesis by (simp add: load_data_nth)
  qed
  have five: "memory (snd (load_twice a b self s)) x = memory (snd (load_data b self s)) x"
    if h: "\<forall>i. length b \<le> i \<and> i < length a \<longrightarrow> x \<noteq> input_addr self i" for x
  proof (cases "\<exists>i<length b. x = input_addr self i")
    case True
    then show ?thesis by (simp add: tw)
  next
    case False
    with h have "\<And>i. i < length a \<Longrightarrow> x \<noteq> input_addr self i"
      by (metis not_le_imp_less)
    then have "memory ?s1 x = memory s x" by (rule load_data_other)
    moreover from False have "memory (snd (load_data b self s)) x = memory s x"
      by (intro load_data_other) blast
    ultimately show ?thesis using False by (simp add: tw)
  qed
  have six: "memory (snd (load_twice a b self s)) = memory (snd (load_data b self s))"
    if "length a \<le> length b"
  proof (rule ext)
    fix x
    from that have "\<forall>i. length b \<le> i \<and> i < length a \<longrightarrow> x \<noteq> input_addr self i" by simp
    then show "memory (snd (load_twice a b self s)) x = memory (snd (load_data b self s)) x"
      by (rule five)
  qed
  from one two three four five six show ?thesis by blast
qed

text \<open>On a fresh object: loading one word and then two gives the memory of the second
  load alone; loading two words and then one leaves the second word of the first load.\<close>

theorem load_twice_last_write_wins_witness:
  "length [7 :: u32] \<le> length [3, 4 :: u32] \<and>
   memory (snd (load_twice [7] [3, 4] (fst (init power_on)) (snd (init power_on))))
     = memory (snd (load_data [3, 4] (fst (init power_on)) (snd (init power_on)))) \<and>
   memory (snd (load_twice [1, 2] [3] (fst (init power_on)) (snd (init power_on))))
     (input_addr (fst (init power_on)) 0) = 3 \<and>
   memory (snd (load_twice [1, 2] [3] (fst (init power_on)) (snd (init power_on))))
     (input_addr (fst (init power_on)) 1) = 2 \<and>
   array_length (fst (load_twice [1, 2] [3] (fst (init power_on)) (snd (init power_on)))) = 1"
proof -
  note A = load_twice_last_write_wins[of "[7]" "[3, 4]" "fst (init power_on)" "snd (init power_on)"]
  note B = load_twice_last_write_wins[of "[1, 2]" "[3]" "fst (init power_on)" "snd (init power_on)"]
  have 1: "memory (snd (load_twice [7] [3, 4] (fst (init power_on)) (snd (init power_on))))
     = memory (snd (load_data [3, 4] (fst (init power_on)) (snd (init power_on))))"
    using A by simp
  have 2: "memory (snd (load_twice [1, 2] [3] (fst (init power_on)) (snd (init power_on))))
     (input_addr (fst (init power_on)) 0) = 3"
    using B[THEN conjunct2, THEN conjunct2, THEN conjunct1, rule_format, of 0] by simp
  have 3: "memory (snd (load_twice [1, 2] [3] (fst (init power_on)) (snd (init power_on))))
     (input_addr (fst (init power_on)) 1) = 2"
    using B[THEN conjunct2, THEN conjunct2, THEN conjunct2, THEN conjunct1, rule_format, of 1]
    by simp
  have 4: "array_length (fst (load_twice [1, 2] [3] (fst (init power_on)) (snd (init power_on)))) = 1"
    using B[THEN conjunct2, THEN conjunct1] by simp
  from 1 2 3 4 show ?thesis by simp
qed

text \<open>The claim as first stated fails: after \<open>load_data([1, 2])\<close> and \<open>load_data([3])\<close>
  the input word at offset 4 holds 2, and after \<open>load_data([3])\<close> alone it holds 0.\<close>

theorem load_twice_stale_tail_counterexample:
  "memory (snd (load_twice [1, 2] [3] (fst (init power_on)) (snd (init power_on))))
     (BASE_ADDRESS + INPUT_DATA_OFFSET + 4) = 2 \<and>
   memory (snd (load_data [3] (fst (init power_on)) (snd (init power_on))))
     (BASE_ADDRESS + INPUT_DATA_OFFSET + 4) = 0"
proof -
  have a: "BASE_ADDRESS + INPUT_DATA_OFFSET + 4 = input_addr (fst (init power_on)) 1"
    by (simp add: input_addr_def init_eq)
  have "memory (snd (load_twice [1, 2] [3] (fst (init power_on)) (snd (init power_on))))
     (input_addr (fst (init power_on)) 1) = 2"
    by (simp add: load_twice_eq load_data_self load_data_memory input_addr_inj)
      (simp add: input_addr_def)
  moreover have "memory (snd (load_data [3] (fst (init power_on)) (snd (init power_on))))
     (input_addr (fst (init power_on)) 1) = 0"
    by (simp add: load_data_memory input_addr_inj)
      (simp add: init_eq power_on_def input_addr_def INPUT_DATA_OFFSET_def CMD_OFFSET_def)
  ultimately show ?thesis unfolding a by simp
qed

lemma device_run_preserves:
  "(\<forall>k m. dev k m c = m c) \<Longrightarrow> device_run dev k n m c = m c"
  by (induction n arbitrary: k m) simp_all

lemma input_below_output: "i < 256 \<Longrightarrow> input_addr self i < output_addr self j"
  by (simp add: input_addr_def output_addr_def INPUT_DATA_OFFSET_def OUTPUT_DATA_OFFSET_def)

lemma input_below_cmd: "i < 512 \<Longrightarrow> input_addr self i < cmd_addr self"
  by (simp add: input_addr_def cmd_addr_def INPUT_DATA_OFFSET_def CMD_OFFSET_def)

lemma input_below_ack: "i < 513 \<Longrightarrow> input_addr self i < ack_addr self"
  by (simp add: input_addr_def ack_addr_def INPUT_DATA_OFFSET_def ACK_OFFSET_def)

lemma upt_513: "[0..<513] = [0..<512] @ [512 :: nat]"
  using upt_Suc_append[of 0 512] by simp

subsection \<open>C8: what \<open>load_data\<close> changes\<close>

text \<open>
  Claim C8, as amended: for every input list, \<open>load_data\<close> sets \<open>array_length\<close> to the
  length of the list and makes exactly the writes of \<open>input_data[i]\<close> to the input offset
  \<open>i * 4\<close>, in increasing order of \<open>i\<close>; afterwards these words hold the input, and
  every address that is not one of them is unchanged. For a list of at most 256 words the
  output area is unchanged; for at most 512 words the command register is unchanged, and
  for at most 513 words the acknowledge register is unchanged: no command is issued.
\<close>

theorem load_data_frame:
  "array_length (fst (load_data input_data self s)) = length input_data \<and>
   mmio (fst (load_data input_data self s)) = mmio self \<and>
   accesses (snd (load_data input_data self s)) =
     accesses s @ map (\<lambda>i. Write (input_addr self i) (input_data ! i)) [0..<length input_data] \<and>
   (\<forall>i<length input_data.
      memory (snd (load_data input_data self s)) (input_addr self i) = input_data ! i) \<and>
   (\<forall>a. (\<forall>i<length input_data. a \<noteq> input_addr self i) \<longrightarrow>
      memory (snd (load_data input_data self s)) a = memory s a) \<and>
   (length input_data \<le> 256 \<longrightarrow>
      (\<forall>j. memory (snd (load_data input_data self s)) (output_addr self j)
             = memory s (output_addr self j))) \<and>
   (length input_data \<le> 512 \<longrightarrow>
      memory (snd (load_data input_data self s)) (cmd_addr self) = memory s (cmd_addr self)) \<and>
   (length input_data \<le> 513 \<longrightarrow>
      memory (snd (load_data input_data self s)) (ack_addr self) = memory s (ack_addr self))"
proof (intro conjI allI impI)
  show "array_length (fst (load_data input_data self s)) = length input_data"
    and "mmio (fst (load_data input_data self s)) = mmio self"
    by (simp_all add: load_data_self)
  show "accesses (snd (load_data input_data self s)) =
     accesses s @ map (\<lambda>i. Write (input_addr self i) (input_data ! i)) [0..<length input_data]"
    by (rule load_data_accesses)
next
  fix i assume "i < length input_data"
  then show "memory (snd (load_data input_data self s)) (input_addr self i) = input_data ! i"
    by (rule load_data_nth)
next
  fix a assume "\<forall>i<length input_data. a \<noteq> input_addr self i"
  then show "memory (snd (load_data input_data self s)) a = memory s a"
    by (intro load_data_other) blast
next
  fix j assume "length input_data \<le> 256"
  then have "i < length input_data \<Longrightarrow> output_addr self j \<noteq> input_addr self i" for i
    using input_below_output[of i self j] by simp
  then show "memory (snd (load_data input_data self s)) (output_addr self j)
             = memory s (output_addr self j)"
    by (rule load_data_other)
next
  assume "length input_data \<le> 512"
  then have "i < length input_data \<Longrightarrow> cmd_addr self \<noteq> input_addr self i" for i
    using input_below_cmd[of i self] by simp
  then show "memory (snd (load_data input_data self s)) (cmd_addr self) = memory s (cmd_addr self)"
    by (rule load_data_other)
next
  assume "length input_data \<le> 513"
  then have "i < length input_data \<Longrightarrow> ack_addr self \<noteq> input_addr self i" for i
    using input_below_ack[of i self] by simp
  then show "memory (snd (load_data input_data self s)) (ack_addr self) = memory s (ack_addr self)"
    by (rule load_data_other)
qed

text \<open>The ten words of the notebook, loaded by a fresh object.\<close>

theorem load_data_frame_witness:
  "length [0, 1, 2, 3, 4, 5, 6, 7, 8, 9 :: u32] \<le> 256 \<and>
   array_length (fst (load_data [0, 1, 2, 3, 4, 5, 6, 7, 8, 9] (fst (init power_on))
                        (snd (init power_on)))) = 10 \<and>
   memory (snd (load_data [0, 1, 2, 3, 4, 5, 6, 7, 8, 9] (fst (init power_on))
                        (snd (init power_on)))) (input_addr (fst (init power_on)) 9) = 9 \<and>
   memory (snd (load_data [0, 1, 2, 3, 4, 5, 6, 7, 8, 9] (fst (init power_on))
                        (snd (init power_on)))) (cmd_addr (fst (init power_on)))
     = memory (snd (init power_on)) (cmd_addr (fst (init power_on))) \<and>
   memory (snd (load_data [0, 1, 2, 3, 4, 5, 6, 7, 8, 9] (fst (init power_on))
                        (snd (init power_on)))) (ack_addr (fst (init power_on)))
     = memory (snd (init power_on)) (ack_addr (fst (init power_on))) \<and>
   memory (snd (load_data [0, 1, 2, 3, 4, 5, 6, 7, 8, 9] (fst (init power_on))
                        (snd (init power_on)))) (output_addr (fst (init power_on)) 0)
     = memory (snd (init power_on)) (output_addr (fst (init power_on)) 0)"
proof -
  note A = load_data_frame[of "[0, 1, 2, 3, 4, 5, 6, 7, 8, 9]" "fst (init power_on)"
      "snd (init power_on)"]
  have "memory (snd (load_data [0, 1, 2, 3, 4, 5, 6, 7, 8, 9] (fst (init power_on))
                        (snd (init power_on)))) (input_addr (fst (init power_on)) 9) = 9"
    using A[THEN conjunct2, THEN conjunct2, THEN conjunct2, THEN conjunct1, rule_format, of 9]
    by simp
  with A show ?thesis by simp
qed

text \<open>The claim as first stated, for every input list, fails: loading 513 words equal to 1
  changes the command register from 0 to 1, the PROCESS command.\<close>

theorem load_data_issues_command_counterexample:
  "memory (snd (init power_on)) (BASE_ADDRESS + CMD_OFFSET) = 0 \<and>
   memory (snd (load_data (replicate 513 1) (fst (init power_on)) (snd (init power_on))))
     (BASE_ADDRESS + CMD_OFFSET) = 1"
proof -
  have "memory (snd (load_data (replicate 513 1) (fst (init power_on)) (snd (init power_on))))
     (input_addr (fst (init power_on)) 512) = replicate 513 1 ! 512"
    by (rule load_data_nth) simp
  then show ?thesis
    by (simp add: input_addr_cmd) (simp add: cmd_addr_def init_eq)
qed

subsection \<open>C9: the command register after \<open>process\<close>\<close>

text \<open>
  Claim C9, as amended: the writes of \<open>process()\<close> are the write of 1 to the command
  offset and the write of 0 to the acknowledge offset, in this order, and no other. So when
  \<open>process()\<close> returns and the device has not touched the command register, the command
  register holds 1, not IDLE. Construction writes 0 to the command offset. \<open>load_data\<close>
  writes only the input words, so with at most 512 words it writes nothing to the command
  offset and the register keeps its value, 1 after a first cycle. (With 513 words or more,
  \<open>load_data\<close> writes word 512 to the command offset.)
\<close>

theorem process_leaves_command_set:
  "(\<forall>r. process dev self s = Some r \<longrightarrow>
      writes (accesses (snd r)) = writes (accesses s) @ [(cmd_addr self, 1), (ack_addr self, 0)] \<and>
      ((\<forall>k m. dev k m (cmd_addr self) = m (cmd_addr self)) \<longrightarrow>
         memory (snd r) (cmd_addr self) = 1)) \<and>
   writes (accesses (snd (init s))) = writes (accesses s) @ [(BASE_ADDRESS + CMD_OFFSET, 0)] \<and>
   writes (accesses (snd (load_data input_data self s))) =
     writes (accesses s) @ map (\<lambda>i. (input_addr self i, input_data ! i)) [0..<length input_data] \<and>
   (length input_data \<le> 512 \<longrightarrow>
      (\<forall>i<length input_data. input_addr self i \<noteq> cmd_addr self) \<and>
      memory (snd (load_data input_data self s)) (cmd_addr self) = memory s (cmd_addr self))"
proof (intro conjI allI impI)
  fix r assume "process dev self s = Some r"
  then obtain n where
    r: "r = (map (\<lambda>i. polled dev self s n (output_addr self i)) [0..<array_length self],
           s\<lparr>memory := (polled dev self s n)(ack_addr self := 0),
             accesses := accesses s @ [Write (cmd_addr self) 1] @
               map (\<lambda>j. Read (ack_addr self) (polled dev self s j (ack_addr self))) [0..<Suc n] @
               map (\<lambda>i. Read (output_addr self i) (polled dev self s n (output_addr self i)))
                 [0..<array_length self] @
               [Write (ack_addr self) 0]\<rparr>)"
    by (rule process_SomeE)
  show "writes (accesses (snd r)) = writes (accesses s) @ [(cmd_addr self, 1), (ack_addr self, 0)]"
    unfolding r by (simp add: writes_append writes_Reads del: upt_Suc)
  assume "\<forall>k m. dev k m (cmd_addr self) = m (cmd_addr self)"
  then have "polled dev self s n (cmd_addr self) = 1"
    by (simp add: polled_def device_run_preserves)
  then show "memory (snd r) (cmd_addr self) = 1"
    unfolding r using cmd_ack_distinct[of self] by simp
next
  show "writes (accesses (snd (init s))) = writes (accesses s) @ [(BASE_ADDRESS + CMD_OFFSET, 0)]"
    by (simp add: init_eq writes_append)
  show "writes (accesses (snd (load_data input_data self s))) =
     writes (accesses s) @ map (\<lambda>i. (input_addr self i, input_data ! i)) [0..<length input_data]"
    by (simp add: load_data_accesses writes_append writes_Writes)
next
  fix i assume "length input_data \<le> 512" "i < length input_data"
  then show "input_addr self i \<noteq> cmd_addr self"
    using input_below_cmd[of i self] by simp
next
  assume "length input_data \<le> 512"
  then have "i < length input_data \<Longrightarrow> cmd_addr self \<noteq> input_addr self i" for i
    using input_below_cmd[of i self] by simp
  then show "memory (snd (load_data input_data self s)) (cmd_addr self) = memory s (cmd_addr self)"
    by (rule load_data_other)
qed

text \<open>A first cycle of a fresh object, then a load of 512 words equal to 0: the command
  register reads 1 after both.\<close>

theorem process_leaves_command_set_witness:
  "process idle_device (fst (init power_on)) (simulate_device [] (snd (init power_on))) \<noteq> None \<and>
   (\<forall>k m. idle_device k m (cmd_addr (fst (init power_on))) = m (cmd_addr (fst (init power_on)))) \<and>
   length (replicate 512 (0 :: u32)) \<le> 512 \<and>
   memory (snd (the (process idle_device (fst (init power_on))
                       (simulate_device [] (snd (init power_on))))))
     (cmd_addr (fst (init power_on))) = 1 \<and>
   memory (snd (load_data (replicate 512 0) (fst (init power_on))
                  (snd (the (process idle_device (fst (init power_on))
                               (simulate_device [] (snd (init power_on))))))))
     (cmd_addr (fst (init power_on))) = 1"
proof -
  let ?self = "fst (init power_on)"
  let ?r = "the (process idle_device ?self (simulate_device [] (snd (init power_on))))"
  have ret: "process idle_device ?self (simulate_device [] (snd (init power_on))) = Some ?r"
    by (simp add: acked_fresh)
  have idle: "\<forall>k m. idle_device k m (cmd_addr ?self) = m (cmd_addr ?self)"
    by (simp add: idle_device_def)
  note A = process_leaves_command_set[of idle_device ?self "simulate_device [] (snd (init power_on))"
      "[]"]
  note B = process_leaves_command_set[of idle_device ?self "snd ?r" "replicate 512 0"]
  from A ret idle have 1: "memory (snd ?r) (cmd_addr ?self) = 1" by blast
  from B have "memory (snd (load_data (replicate 512 0) ?self (snd ?r))) (cmd_addr ?self)
      = memory (snd ?r) (cmd_addr ?self)" by simp
  with 1 ret idle show ?thesis by (simp add: acked_fresh)
qed

text \<open>The claim as first stated says that only construction writes 0 to the command
  offset. After a first cycle the command register holds 1; loading 513 words equal to 0
  ends with the write of 0 to the command offset, and the register holds 0.\<close>

theorem load_data_writes_idle_counterexample:
  "memory (snd (the (process idle_device (fst (init power_on))
                       (simulate_device [] (snd (init power_on))))))
     (BASE_ADDRESS + CMD_OFFSET) = 1 \<and>
   memory (snd (load_data (replicate 513 0) (fst (init power_on))
                  (snd (the (process idle_device (fst (init power_on))
                               (simulate_device [] (snd (init power_on))))))))
     (BASE_ADDRESS + CMD_OFFSET) = 0 \<and>
   last (accesses (snd (load_data (replicate 513 0) (fst (init power_on))
                  (snd (the (process idle_device (fst (init power_on))
                               (simulate_device [] (snd (init power_on)))))))))
     = Write (BASE_ADDRESS + CMD_OFFSET) 0"
proof -
  let ?self = "fst (init power_on)"
  let ?s = "snd (the (process idle_device ?self (simulate_device [] (snd (init power_on)))))"
  have c: "cmd_addr ?self = BASE_ADDRESS + CMD_OFFSET" by (simp add: cmd_addr_def init_eq)
  have 1: "memory ?s (BASE_ADDRESS + CMD_OFFSET) = 1"
    by (simp add: acked_fresh CMD_OFFSET_def ACK_OFFSET_def)
  have "memory (snd (load_data (replicate 513 0) ?self ?s)) (input_addr ?self 512)
      = replicate 513 0 ! 512"
    by (rule load_data_nth) simp
  then have 2: "memory (snd (load_data (replicate 513 0) ?self ?s)) (BASE_ADDRESS + CMD_OFFSET) = 0"
    by (simp add: input_addr_cmd c)
  have 3: "last (accesses (snd (load_data (replicate 513 0) ?self ?s)))
      = Write (BASE_ADDRESS + CMD_OFFSET) 0"
    by (simp add: load_data_accesses upt_513 input_addr_cmd c)
  from 1 2 3 show ?thesis by simp
qed

end
